theory Spec2Isabelle
  imports Main "HOL-Library.Log_Nat"
begin

section \<open>Candidate extraction tutorial: the sentence filter and the corpus split\<close>

text \<open>
  The notebook \<^verbatim>\<open>tutorials/intro/Intro_Tutorial_2.ipynb\<close> authors two pieces of logic of
  its own: the helper \<^verbatim>\<open>number_of_people\<close> and the loop that distributes the sentences
  of the corpus over the train, dev and test sets. Everything else is a call into the
  framework.
\<close>

subsection \<open>Data\<close>

text \<open>
  A sentence is an object of the framework; the loop only reads its \<^verbatim>\<open>ner_tags\<close> and
  puts the object itself into a set. Objects are compared by identity, which the field
  \<open>sentence_id\<close> stands for. A document is read through its \<^verbatim>\<open>name\<close> (the sort key of
  the query) and its \<^verbatim>\<open>sentences\<close>.
\<close>

record sentence =
  sentence_id :: nat
  ner_tags :: "string list"

record document =
  name :: string
  sentences :: "sentence list"

subsection \<open>Counting people\<close>

text \<open>
  \<^verbatim>\<open>
  def number_of_people(sentence):
      active_sequence = False
      count = 0
      for tag in sentence.ner_tags:
          if tag == 'PERSON' and not active_sequence:
              active_sequence = True
              count += 1
          elif tag != 'PERSON' and active_sequence:
              active_sequence = False
      return count
  \<close>
  The loop state is the pair \<open>(active_sequence, count)\<close>; \<open>count\<close> is a Python integer.
\<close>

fun number_of_people_loop :: "string list \<Rightarrow> bool \<times> int \<Rightarrow> bool \<times> int" where
  "number_of_people_loop [] (active_sequence, count) = (active_sequence, count)"
| "number_of_people_loop (tag # tags) (active_sequence, count) =
     (if tag = ''PERSON'' \<and> \<not> active_sequence then
        number_of_people_loop tags (True, count + 1)
      else if tag \<noteq> ''PERSON'' \<and> active_sequence then
        number_of_people_loop tags (False, count)
      else number_of_people_loop tags (active_sequence, count))"

definition number_of_people :: "sentence \<Rightarrow> int" where
  "number_of_people s = snd (number_of_people_loop (ner_tags s) (False, 0))"

subsection \<open>Runs of PERSON tags\<close>

text \<open>
  What the count is meant to be, in the words of the specification: the number of maximal
  contiguous runs of the tag PERSON. A run is a non-empty index range \<open>[i, j)\<close> of
  the tag list in which every tag is PERSON; it is maximal when it can be extended
  neither to the left nor to the right. \<open>person_run_starts\<close> is the set of
  positions where a run begins.
\<close>

definition maximal_person_runs :: "string list \<Rightarrow> (nat \<times> nat) set" where
  "maximal_person_runs tags =
     {(i, j). i < j \<and> j \<le> length tags
        \<and> (\<forall>k. i \<le> k \<and> k < j \<longrightarrow> tags ! k = ''PERSON'')
        \<and> (i = 0 \<or> tags ! (i - 1) \<noteq> ''PERSON'')
        \<and> (j = length tags \<or> tags ! j \<noteq> ''PERSON'')}"

definition person_run_starts :: "string list \<Rightarrow> nat set" where
  "person_run_starts tags =
     {i. i < length tags \<and> tags ! i = ''PERSON'' \<and> (i = 0 \<or> tags ! (i - 1) \<noteq> ''PERSON'')}"

subsection \<open>Floating-point arithmetic of the thresholds\<close>

text \<open>
  The thresholds \<^verbatim>\<open>0.8\<close>, \<^verbatim>\<open>0.9\<close> and \<^verbatim>\<open>0.95\<close> are binary64 numbers, and
  \<^verbatim>\<open>splits[k] * ld\<close> is a binary64 product. A finite binary64 number is a rational, so
  the three operations the loop performs are modelled over \<open>rat\<close>: reading a decimal
  literal, converting the integer \<^verbatim>\<open>ld\<close>, and multiplying, each followed by rounding
  to 53 significant bits, to nearest with ties to even. Exponent limits play no role here:
  the literals lie in \<open>[1/2, 1)\<close> and \<^verbatim>\<open>ld = len(docs)\<close> is a machine integer, so every
  value is zero or in the normal range. The comparison \<^verbatim>\<open>i < x\<close> of an integer with a
  float is exact in Python and is \<open>of_nat i < x\<close> below.
\<close>

definition floor_log2 :: "rat \<Rightarrow> int" where
  "floor_log2 x =
     (let (p, q) = quotient_of x; d = bitlen p - bitlen q
      in if 2 powi d \<le> x then d else d - 1)"

definition round_binary64 :: "rat \<Rightarrow> rat" where
  "round_binary64 x =
     (if x = 0 then 0
      else
        let ulp = 2 powi (floor_log2 \<bar>x\<bar> - 52);
            q = \<lfloor>\<bar>x\<bar> / ulp\<rfloor>;
            r = \<bar>x\<bar> / ulp - of_int q;
            m = (if 1 / 2 < r \<or> (r = 1 / 2 \<and> odd q) then q + 1 else q)
        in sgn x * of_int m * ulp)"

definition float_literal :: "rat \<Rightarrow> rat" where
  "float_literal d = round_binary64 d"

definition float_of_int :: "int \<Rightarrow> rat" where
  "float_of_int n = round_binary64 (of_int n)"

definition float_mul :: "rat \<Rightarrow> rat \<Rightarrow> rat" where
  "float_mul a b = round_binary64 (a * b)"

subsection \<open>Splitting the corpus\<close>

text \<open>
  \<^verbatim>\<open>
  docs = session.query(Document).order_by(Document.name).all()
  ld   = len(docs)

  train_sents = set()
  dev_sents   = set()
  test_sents  = set()
  splits = (0.8, 0.9) if 'CI' in os.environ else (0.9, 0.95)
  for i,doc in enumerate(docs):
      for s in doc.sentences:
          if number_of_people(s) < 5:
              if i < splits[0] * ld:
                  train_sents.add(s)
              elif i < splits[1] * ld:
                  dev_sents.add(s)
              else:
                  test_sents.add(s)
  \<close>
  The query is a call into the framework; its result \<^verbatim>\<open>docs\<close>, the documents in the
  order of their names, is the input of the model. The environment is a dictionary from
  names to values. A tuple is a list, and a subscript outside of it raises
  \<^verbatim>\<open>IndexError\<close>: this is the one operation of the loop that can fail, and the model
  evaluates it where the source does, inside the loop body.
\<close>

datatype py_error =
    IndexError | NameError | AttributeError | TypeError | ValueError | AssertionError
  | Raised string | Unsupported

definition subscript :: "'a list \<Rightarrow> nat \<Rightarrow> py_error + 'a" where
  "subscript xs k = (if k < length xs then Inr (xs ! k) else Inl IndexError)"

type_synonym environ = "string \<rightharpoonup> string"

definition splits :: "environ \<Rightarrow> rat list" where
  "splits env =
     (if ''CI'' \<in> dom env then [float_literal (8 / 10), float_literal (9 / 10)]
      else [float_literal (9 / 10), float_literal (95 / 100)])"

record split_state =
  train_sents :: "sentence set"
  dev_sents :: "sentence set"
  test_sents :: "sentence set"

text \<open>The test \<^verbatim>\<open>i < c * ld\<close> for a threshold \<open>c\<close>.\<close>

definition below :: "nat \<Rightarrow> rat \<Rightarrow> nat \<Rightarrow> bool" where
  "below i c ld \<longleftrightarrow> of_nat i < float_mul c (float_of_int (int ld))"

text \<open>The body of the inner loop, for the sentence \<open>s\<close> of the document at index \<open>i\<close>.\<close>

definition place_sentence ::
  "rat list \<Rightarrow> nat \<Rightarrow> nat \<Rightarrow> sentence \<Rightarrow> split_state \<Rightarrow> py_error + split_state" where
  "place_sentence sp ld i s st =
     (if number_of_people s < 5 then
        (case subscript sp 0 of
           Inl e \<Rightarrow> Inl e
         | Inr c0 \<Rightarrow>
            if below i c0 ld then Inr (st\<lparr>train_sents := insert s (train_sents st)\<rparr>)
            else
              (case subscript sp 1 of
                 Inl e \<Rightarrow> Inl e
               | Inr c1 \<Rightarrow>
                  if below i c1 ld then Inr (st\<lparr>dev_sents := insert s (dev_sents st)\<rparr>)
                  else Inr (st\<lparr>test_sents := insert s (test_sents st)\<rparr>)))
      else Inr st)"

fun sentences_loop ::
  "rat list \<Rightarrow> nat \<Rightarrow> nat \<Rightarrow> sentence list \<Rightarrow> split_state \<Rightarrow> py_error + split_state" where
  "sentences_loop sp ld i [] st = Inr st"
| "sentences_loop sp ld i (s # ss) st =
     (case place_sentence sp ld i s st of
        Inl e \<Rightarrow> Inl e
      | Inr st' \<Rightarrow> sentences_loop sp ld i ss st')"

fun docs_loop ::
  "rat list \<Rightarrow> nat \<Rightarrow> (nat \<times> document) list \<Rightarrow> split_state \<Rightarrow> py_error + split_state" where
  "docs_loop sp ld [] st = Inr st"
| "docs_loop sp ld ((i, doc) # rest) st =
     (case sentences_loop sp ld i (sentences doc) st of
        Inl e \<Rightarrow> Inl e
      | Inr st' \<Rightarrow> docs_loop sp ld rest st')"

definition split_sentences :: "environ \<Rightarrow> document list \<Rightarrow> py_error + split_state" where
  "split_sentences env docs =
     docs_loop (splits env) (length docs) (enumerate 0 docs)
       \<lparr>train_sents = {}, dev_sents = {}, test_sents = {}\<rparr>"

text \<open>
  For the proofs: the sentence \<open>s\<close> of the document at index \<open>i\<close> is put into the set
  number \<open>k\<close> (0 for train, 1 for dev, 2 for test) under the thresholds \<open>c0\<close> and \<open>c1\<close>.
\<close>

definition kept :: "rat \<Rightarrow> rat \<Rightarrow> nat \<Rightarrow> nat \<Rightarrow> nat \<Rightarrow> sentence \<Rightarrow> bool" where
  "kept c0 c1 ld k i s \<longleftrightarrow>
     number_of_people s < 5 \<and>
     (if below i c0 ld then k = 0 else if below i c1 ld then k = 1 else k = 2)"

subsection \<open>The authored code as a program\<close>

text \<open>
  Whether the authored code has an error branch is a question about its text, and whether
  it can fail is a question about every operation it performs. For both, the function
  \<^verbatim>\<open>number_of_people\<close> and the splitting cell are also written down as syntax trees,
  statement by statement, and run by an interpreter of the fragment of Python they are
  written in. The interpreter raises what Python raises on the operations of the fragment
  (\<^verbatim>\<open>NameError\<close> for an unbound name, \<^verbatim>\<open>IndexError\<close> for a subscript out of range,
  \<^verbatim>\<open>AttributeError\<close>, \<^verbatim>\<open>TypeError\<close> for an unhashable set member or a wrong
  number of arguments, \<^verbatim>\<open>ValueError\<close> for a tuple of the wrong length in a loop
  target, \<^verbatim>\<open>AssertionError\<close>, and whatever a \<^verbatim>\<open>raise\<close> statement raises); on
  operand types that the two pieces of code never use it gives \<open>Unsupported\<close>, which
  counts as a failure.
\<close>

text \<open>Values. A set is the list of its members in the order of insertion.\<close>

datatype pyval =
    PNone
  | PBool bool
  | PInt int
  | PFloat rat
  | PStr string
  | PTuple "pyval list"
  | PList "pyval list"
  | PSet "pyval list"
  | PSentence sentence
  | PDocument document

text \<open>Expressions and statements, named as in the syntax trees of Python.\<close>

datatype cmpop = CmpEq | CmpNotEq | CmpLt

datatype expr =
    Const pyval
  | Name string
  | Attribute expr string
  | Compare expr cmpop expr
  | BoolAnd expr expr
  | BoolNot expr
  | Mult expr expr
  | Subscript expr expr
  | IfExp expr expr expr
  | Call string "expr list"
  | InEnviron string

datatype stmt =
    Assign string expr
  | AugAssignAdd string expr
  | If expr "stmt list" "stmt list"
  | For "string list" expr "stmt list"
  | MethodCall string string "expr list"
  | Return expr
  | Raise string
  | Try "stmt list" "stmt list"
  | Assert expr

text \<open>
  The variables of a scope, the callables in reach, and the three ways a statement ends:
  normally, by \<^verbatim>\<open>return\<close>, or by an exception.
\<close>

type_synonym store = "string \<rightharpoonup> pyval"

type_synonym callables = "string \<rightharpoonup> (pyval list \<Rightarrow> py_error + pyval)"

datatype outcome = Normal store | Returned pyval | Raises py_error store

definition and_then :: "'e + 'a \<Rightarrow> ('a \<Rightarrow> 'e + 'b) \<Rightarrow> 'e + 'b" where
  "and_then r f = (case r of Inl e \<Rightarrow> Inl e | Inr v \<Rightarrow> f v)"

text \<open>
  The operators, on the operand types that occur: \<^verbatim>\<open>==\<close> and \<^verbatim>\<open>!=\<close> on strings,
  \<^verbatim>\<open><\<close> on two integers and on an integer and a float (exact), \<^verbatim>\<open>*\<close> on a float
  and an integer, subscripts of tuples and lists (a negative index counts from the end),
  and the attributes \<^verbatim>\<open>ner_tags\<close>, \<^verbatim>\<open>sentences\<close> and \<^verbatim>\<open>name\<close>.
\<close>

fun compare :: "cmpop \<Rightarrow> pyval \<Rightarrow> pyval \<Rightarrow> py_error + pyval" where
  "compare CmpEq (PStr a) (PStr b) = Inr (PBool (a = b))"
| "compare CmpNotEq (PStr a) (PStr b) = Inr (PBool (a \<noteq> b))"
| "compare CmpLt (PInt a) (PInt b) = Inr (PBool (a < b))"
| "compare CmpLt (PInt a) (PFloat x) = Inr (PBool (of_int a < x))"
| "compare op v w = Inl Unsupported"

fun multiply :: "pyval \<Rightarrow> pyval \<Rightarrow> py_error + pyval" where
  "multiply (PFloat a) (PInt n) = Inr (PFloat (float_mul a (float_of_int n)))"
| "multiply v w = Inl Unsupported"

definition index :: "pyval list \<Rightarrow> int \<Rightarrow> py_error + pyval" where
  "index xs k =
     (if 0 \<le> k then subscript xs (nat k)
      else if - int (length xs) \<le> k then Inr (xs ! nat (int (length xs) + k))
      else Inl IndexError)"

fun subscript_value :: "pyval \<Rightarrow> pyval \<Rightarrow> py_error + pyval" where
  "subscript_value (PTuple xs) (PInt k) = index xs k"
| "subscript_value (PList xs) (PInt k) = index xs k"
| "subscript_value v w = Inl Unsupported"

fun attribute :: "pyval \<Rightarrow> string \<Rightarrow> py_error + pyval" where
  "attribute (PSentence s) a =
     (if a = ''ner_tags'' then Inr (PList (map PStr (ner_tags s))) else Inl Unsupported)"
| "attribute (PDocument d) a =
     (if a = ''sentences'' then Inr (PList (map PSentence (sentences d)))
      else if a = ''name'' then Inr (PStr (name d))
      else Inl Unsupported)"
| "attribute v a = Inl AttributeError"

text \<open>
  Evaluation. \<open>InEnviron k\<close> is the test \<^verbatim>\<open>k in os.environ\<close>; \<open>IfExp t a b\<close> is
  \<^verbatim>\<open>a if t else b\<close>; \<^verbatim>\<open>and\<close> evaluates its right operand only when the left one
  is true.
\<close>

fun eval :: "callables \<Rightarrow> environ \<Rightarrow> store \<Rightarrow> expr \<Rightarrow> py_error + pyval"
  and eval_list :: "callables \<Rightarrow> environ \<Rightarrow> store \<Rightarrow> expr list \<Rightarrow> py_error + pyval list" where
  "eval F E \<sigma> (Const v) = Inr v"
| "eval F E \<sigma> (Name x) = (case \<sigma> x of None \<Rightarrow> Inl NameError | Some v \<Rightarrow> Inr v)"
| "eval F E \<sigma> (Attribute e a) = and_then (eval F E \<sigma> e) (\<lambda>v. attribute v a)"
| "eval F E \<sigma> (Compare a op b) =
     and_then (eval F E \<sigma> a) (\<lambda>v. and_then (eval F E \<sigma> b) (\<lambda>w. compare op v w))"
| "eval F E \<sigma> (BoolAnd a b) =
     (case eval F E \<sigma> a of
        Inl e \<Rightarrow> Inl e
      | Inr (PBool t) \<Rightarrow> if t then eval F E \<sigma> b else Inr (PBool False)
      | Inr v \<Rightarrow> Inl Unsupported)"
| "eval F E \<sigma> (BoolNot a) =
     (case eval F E \<sigma> a of
        Inl e \<Rightarrow> Inl e
      | Inr (PBool t) \<Rightarrow> Inr (PBool (\<not> t))
      | Inr v \<Rightarrow> Inl Unsupported)"
| "eval F E \<sigma> (Mult a b) =
     and_then (eval F E \<sigma> a) (\<lambda>v. and_then (eval F E \<sigma> b) (\<lambda>w. multiply v w))"
| "eval F E \<sigma> (Subscript a b) =
     and_then (eval F E \<sigma> a) (\<lambda>v. and_then (eval F E \<sigma> b) (\<lambda>w. subscript_value v w))"
| "eval F E \<sigma> (IfExp t a b) =
     (case eval F E \<sigma> t of
        Inl e \<Rightarrow> Inl e
      | Inr (PBool c) \<Rightarrow> if c then eval F E \<sigma> a else eval F E \<sigma> b
      | Inr v \<Rightarrow> Inl Unsupported)"
| "eval F E \<sigma> (Call f args) =
     and_then (eval_list F E \<sigma> args)
       (\<lambda>vs. case F f of None \<Rightarrow> Inl NameError | Some g \<Rightarrow> g vs)"
| "eval F E \<sigma> (InEnviron k) = Inr (PBool (k \<in> dom E))"
| "eval_list F E \<sigma> [] = Inr []"
| "eval_list F E \<sigma> (e # es) =
     and_then (eval F E \<sigma> e) (\<lambda>v. and_then (eval_list F E \<sigma> es) (\<lambda>vs. Inr (v # vs)))"

text \<open>
  Execution. A \<^verbatim>\<open>for\<close> loop runs over the elements of a list, binding one name or
  unpacking a tuple into several; \<^verbatim>\<open>x.add(v)\<close> inserts into the set bound to \<open>x\<close>
  (no two names of the code are bound to the same set, so that updating the binding is
  updating the object); \<^verbatim>\<open>try\<close> runs its handler on any exception of its body.
\<close>

fun hashable :: "pyval \<Rightarrow> bool" where
  "hashable (PList xs) = False"
| "hashable (PSet xs) = False"
| "hashable (PTuple xs) = list_all hashable xs"
| "hashable v = True"

fun bind_targets :: "string list \<Rightarrow> pyval \<Rightarrow> store \<Rightarrow> py_error + store" where
  "bind_targets [x] v \<sigma> = Inr (\<sigma>(x \<mapsto> v))"
| "bind_targets xs (PTuple vs) \<sigma> =
     (if length xs = length vs then Inr (fold (\<lambda>(x, v) \<sigma>. \<sigma>(x \<mapsto> v)) (zip xs vs) \<sigma>)
      else Inl ValueError)"
| "bind_targets xs v \<sigma> = Inl Unsupported"

fun exec :: "callables \<Rightarrow> environ \<Rightarrow> stmt \<Rightarrow> store \<Rightarrow> outcome"
  and exec_block :: "callables \<Rightarrow> environ \<Rightarrow> stmt list \<Rightarrow> store \<Rightarrow> outcome"
  and exec_for ::
    "callables \<Rightarrow> environ \<Rightarrow> string list \<Rightarrow> stmt list \<Rightarrow> pyval list \<Rightarrow> store \<Rightarrow> outcome" where
  "exec F E (Assign x e) \<sigma> =
     (case eval F E \<sigma> e of Inl err \<Rightarrow> Raises err \<sigma> | Inr v \<Rightarrow> Normal (\<sigma>(x \<mapsto> v)))"
| "exec F E (AugAssignAdd x e) \<sigma> =
     (case \<sigma> x of
        None \<Rightarrow> Raises NameError \<sigma>
      | Some (PInt a) \<Rightarrow>
         (case eval F E \<sigma> e of
            Inl err \<Rightarrow> Raises err \<sigma>
          | Inr (PInt b) \<Rightarrow> Normal (\<sigma>(x \<mapsto> PInt (a + b)))
          | Inr v \<Rightarrow> Raises Unsupported \<sigma>)
      | Some v \<Rightarrow> Raises Unsupported \<sigma>)"
| "exec F E (If t a b) \<sigma> =
     (case eval F E \<sigma> t of
        Inl err \<Rightarrow> Raises err \<sigma>
      | Inr (PBool c) \<Rightarrow> if c then exec_block F E a \<sigma> else exec_block F E b \<sigma>
      | Inr v \<Rightarrow> Raises Unsupported \<sigma>)"
| "exec F E (For xs e body) \<sigma> =
     (case eval F E \<sigma> e of
        Inl err \<Rightarrow> Raises err \<sigma>
      | Inr (PList vs) \<Rightarrow> exec_for F E xs body vs \<sigma>
      | Inr v \<Rightarrow> Raises Unsupported \<sigma>)"
| "exec F E (MethodCall x m args) \<sigma> =
     (case \<sigma> x of
        None \<Rightarrow> Raises NameError \<sigma>
      | Some (PSet members) \<Rightarrow>
         (if m = ''add'' then
            (case eval_list F E \<sigma> args of
               Inl err \<Rightarrow> Raises err \<sigma>
             | Inr [v] \<Rightarrow>
                if hashable v then
                  Normal (\<sigma>(x \<mapsto> PSet (if v \<in> set members then members else members @ [v])))
                else Raises TypeError \<sigma>
             | Inr vs \<Rightarrow> Raises TypeError \<sigma>)
          else Raises Unsupported \<sigma>)
      | Some v \<Rightarrow> Raises Unsupported \<sigma>)"
| "exec F E (Return e) \<sigma> =
     (case eval F E \<sigma> e of Inl err \<Rightarrow> Raises err \<sigma> | Inr v \<Rightarrow> Returned v)"
| "exec F E (Raise n) \<sigma> = Raises (Raised n) \<sigma>"
| "exec F E (Try body handler) \<sigma> =
     (case exec_block F E body \<sigma> of
        Raises err \<sigma>' \<Rightarrow> exec_block F E handler \<sigma>'
      | r \<Rightarrow> r)"
| "exec F E (Assert e) \<sigma> =
     (case eval F E \<sigma> e of
        Inl err \<Rightarrow> Raises err \<sigma>
      | Inr (PBool c) \<Rightarrow> if c then Normal \<sigma> else Raises AssertionError \<sigma>
      | Inr v \<Rightarrow> Raises Unsupported \<sigma>)"
| "exec_block F E [] \<sigma> = Normal \<sigma>"
| "exec_block F E (s # ss) \<sigma> =
     (case exec F E s \<sigma> of
        Normal \<sigma>' \<Rightarrow> exec_block F E ss \<sigma>'
      | r \<Rightarrow> r)"
| "exec_for F E xs body [] \<sigma> = Normal \<sigma>"
| "exec_for F E xs body (v # vs) \<sigma> =
     (case bind_targets xs v \<sigma> of
        Inl err \<Rightarrow> Raises err \<sigma>
      | Inr \<sigma>' \<Rightarrow>
         (case exec_block F E body \<sigma>' of
            Normal \<sigma>'' \<Rightarrow> exec_for F E xs body vs \<sigma>''
          | r \<Rightarrow> r))"


text \<open>The number of \<^verbatim>\<open>raise\<close>, \<^verbatim>\<open>assert\<close> and \<^verbatim>\<open>try\<close> statements in a statement.\<close>

fun error_branches :: "stmt \<Rightarrow> nat" where
  "error_branches (Raise n) = 1"
| "error_branches (Assert e) = 1"
| "error_branches (Try body handler) =
     1 + sum_list (map error_branches body) + sum_list (map error_branches handler)"
| "error_branches (If t a b) = sum_list (map error_branches a) + sum_list (map error_branches b)"
| "error_branches (For xs e body) = sum_list (map error_branches body)"
| "error_branches s = 0"

text \<open>
  Calling a function defined by \<^verbatim>\<open>def\<close>: the parameters are bound in a fresh scope and
  the body is run; and the three built-in functions that the code calls.
\<close>

definition call_function ::
  "callables \<Rightarrow> environ \<Rightarrow> string list \<Rightarrow> stmt list \<Rightarrow> pyval list \<Rightarrow> py_error + pyval" where
  "call_function F E params body args =
     (if length params \<noteq> length args then Inl TypeError
      else
        (case exec_block F E body (map_of (zip params args)) of
           Normal \<sigma> \<Rightarrow> Inr PNone
         | Returned v \<Rightarrow> Inr v
         | Raises err \<sigma> \<Rightarrow> Inl err))"

fun builtin_len :: "pyval list \<Rightarrow> py_error + pyval" where
  "builtin_len [PList xs] = Inr (PInt (int (length xs)))"
| "builtin_len [PTuple xs] = Inr (PInt (int (length xs)))"
| "builtin_len [PSet xs] = Inr (PInt (int (length xs)))"
| "builtin_len [PStr xs] = Inr (PInt (int (length xs)))"
| "builtin_len vs = Inl TypeError"

fun builtin_set :: "pyval list \<Rightarrow> py_error + pyval" where
  "builtin_set [] = Inr (PSet [])"
| "builtin_set vs = Inl Unsupported"

fun builtin_enumerate :: "pyval list \<Rightarrow> py_error + pyval" where
  "builtin_enumerate [PList xs] =
     Inr (PList (map (\<lambda>(i, v). PTuple [PInt (int i), v]) (enumerate 0 xs)))"
| "builtin_enumerate vs = Inl Unsupported"

definition builtins :: callables where
  "builtins = [''len'' \<mapsto> builtin_len, ''set'' \<mapsto> builtin_set, ''enumerate'' \<mapsto> builtin_enumerate]"

text \<open>
  The body of \<^verbatim>\<open>number_of_people(sentence)\<close>: first the body of its loop, then the whole.
\<close>

definition number_of_people_for_body :: "stmt list" where
  "number_of_people_for_body =
     [If (BoolAnd (Compare (Name ''tag'') CmpEq (Const (PStr ''PERSON'')))
                  (BoolNot (Name ''active_sequence'')))
        [Assign ''active_sequence'' (Const (PBool True)),
         AugAssignAdd ''count'' (Const (PInt 1))]
        [If (BoolAnd (Compare (Name ''tag'') CmpNotEq (Const (PStr ''PERSON'')))
                     (Name ''active_sequence''))
           [Assign ''active_sequence'' (Const (PBool False))]
           []]]"

definition number_of_people_body :: "stmt list" where
  "number_of_people_body =
     [Assign ''active_sequence'' (Const (PBool False)),
      Assign ''count'' (Const (PInt 0)),
      For [''tag''] (Attribute (Name ''sentence'') ''ner_tags'') number_of_people_for_body,
      Return (Name ''count'')]"

text \<open>The callables in reach of the splitting cell.\<close>

definition notebook_callables :: "environ \<Rightarrow> callables" where
  "notebook_callables E =
     builtins(''number_of_people'' \<mapsto> call_function builtins E [''sentence''] number_of_people_body)"

text \<open>
  The splitting cell, from \<^verbatim>\<open>ld = len(docs)\<close> on: the statement executed for each
  sentence, the body of the loop over the documents, the right-hand side of the
  assignment to \<^verbatim>\<open>splits\<close>, and the cell. The cell starts in the scope that holds the
  result of the query as \<^verbatim>\<open>docs\<close>.
\<close>

definition split_sentence_body :: "stmt list" where
  "split_sentence_body =
     [If (Compare (Call ''number_of_people'' [Name ''s'']) CmpLt (Const (PInt 5)))
        [If (Compare (Name ''i'') CmpLt
               (Mult (Subscript (Name ''splits'') (Const (PInt 0))) (Name ''ld'')))
           [MethodCall ''train_sents'' ''add'' [Name ''s'']]
           [If (Compare (Name ''i'') CmpLt
                  (Mult (Subscript (Name ''splits'') (Const (PInt 1))) (Name ''ld'')))
              [MethodCall ''dev_sents'' ''add'' [Name ''s'']]
              [MethodCall ''test_sents'' ''add'' [Name ''s'']]]]
        []]"

definition split_document_body :: "stmt list" where
  "split_document_body = [For [''s''] (Attribute (Name ''doc'') ''sentences'') split_sentence_body]"

definition splits_value :: expr where
  "splits_value =
     IfExp (InEnviron ''CI'')
       (Const (PTuple [PFloat (float_literal (8 / 10)), PFloat (float_literal (9 / 10))]))
       (Const (PTuple [PFloat (float_literal (9 / 10)), PFloat (float_literal (95 / 100))]))"

definition split_cell :: "stmt list" where
  "split_cell =
     [Assign ''ld'' (Call ''len'' [Name ''docs'']),
      Assign ''train_sents'' (Call ''set'' []),
      Assign ''dev_sents'' (Call ''set'' []),
      Assign ''test_sents'' (Call ''set'' []),
      Assign ''splits'' splits_value,
      For [''i'', ''doc''] (Call ''enumerate'' [Name ''docs'']) split_document_body]"

text \<open>
  For the proofs: the variable \<open>x\<close> of a scope holds the sentences of \<open>A\<close>; the three
  set variables hold the three sets of a state of the splitting loop; and the scope holds
  \<^verbatim>\<open>ld\<close> and \<^verbatim>\<open>splits\<close>.
\<close>

definition holds :: "store \<Rightarrow> string \<Rightarrow> sentence set \<Rightarrow> bool" where
  "holds \<sigma> x A \<longleftrightarrow> (\<exists>xs. \<sigma> x = Some (PSet xs) \<and> set xs = PSentence ` A)"

definition agrees :: "store \<Rightarrow> split_state \<Rightarrow> bool" where
  "agrees \<sigma> st \<longleftrightarrow>
     holds \<sigma> ''train_sents'' (train_sents st)
     \<and> holds \<sigma> ''dev_sents'' (dev_sents st)
     \<and> holds \<sigma> ''test_sents'' (test_sents st)"

definition frame :: "store \<Rightarrow> nat \<Rightarrow> rat \<Rightarrow> rat \<Rightarrow> bool" where
  "frame \<sigma> ld c0 c1 \<longleftrightarrow>
     \<sigma> ''ld'' = Some (PInt (int ld)) \<and> \<sigma> ''splits'' = Some (PTuple [PFloat c0, PFloat c1])"

subsection \<open>The context hierarchy\<close>

text \<open>
  Modelled from the spec: the context classes of the framework (\<^verbatim>\<open>Document\<close>,
  \<^verbatim>\<open>Sentence\<close>, \<^verbatim>\<open>Span\<close>, with \<^verbatim>\<open>get_parent\<close>) and its candidate class (with
  \<^verbatim>\<open>get_contexts\<close>) live in the framework's model package, which is not among the
  sources; the notebook only calls them. The specification gives the hierarchy as the
  containment relation Document, Sentence, Span, a span as a contiguous text fragment
  within a sentence, and a candidate as an extracted pair of entities; the notebook
  declares the two members \<^verbatim>\<open>person1\<close> and \<^verbatim>\<open>person2\<close>. A context is named by its
  position in the corpus: the document at index \<open>d\<close>, its sentence at index \<open>k\<close>, and
  the fragment from token \<open>a\<close> to token \<open>b\<close> of that sentence.
\<close>

datatype context_ref = Document nat | Sentence nat nat | Span nat nat nat nat

text \<open>Modelled from the spec: containment of one context in another, within a corpus.\<close>

fun contains_context :: "document list \<Rightarrow> context_ref \<Rightarrow> context_ref \<Rightarrow> bool" where
  "contains_context corpus (Document d) (Sentence d' k) \<longleftrightarrow>
     d' = d \<and> d < length corpus \<and> k < length (sentences (corpus ! d))"
| "contains_context corpus (Sentence d k) (Span d' k' a b) \<longleftrightarrow>
     d' = d \<and> k' = k \<and> d < length corpus \<and> k < length (sentences (corpus ! d))
     \<and> a \<le> b \<and> b < length (ner_tags (sentences (corpus ! d) ! k))"
| "contains_context corpus p x \<longleftrightarrow> False"

text \<open>Modelled from the spec: the parent of a context, one level up the hierarchy.\<close>

fun get_parent :: "context_ref \<Rightarrow> context_ref option" where
  "get_parent (Span d k a b) = Some (Sentence d k)"
| "get_parent (Sentence d k) = Some (Document d)"
| "get_parent (Document d) = None"

text \<open>Modelled from the spec: a candidate and the list of its contexts.\<close>

record candidate =
  person1 :: context_ref
  person2 :: context_ref

definition get_contexts :: "candidate \<Rightarrow> context_ref list" where
  "get_contexts c = [person1 c, person2 c]"

text \<open>Modelled from the spec: a candidate extracted from a corpus pairs two spans of it.\<close>

definition extracted_from :: "document list \<Rightarrow> candidate \<Rightarrow> bool" where
  "extracted_from corpus c \<longleftrightarrow>
     list_all (\<lambda>x. case x of
                 Span d k a b \<Rightarrow> contains_context corpus (Sentence d k) x
               | _ \<Rightarrow> False) (get_contexts c)"

subsection \<open>Running the notebook\<close>

text \<open>
  The code cells of the notebook run from top to bottom, and a cell that raises stops the
  run. The framework is reached through its calls, which are recorded in the order in
  which they are made: \<open>split_corpus_loop\<close> stands for the run of the splitting
  loop, \<open>extractor_apply k\<close> for \<^verbatim>\<open>cand_extractor.apply(..., split=k)\<close> and
  \<open>query_candidates k\<close> for \<^verbatim>\<open>session.query(Spouse).filter(Spouse.split == k)\<close>.
\<close>

datatype call =
    SnorkelSession
  | candidate_subclass
  | Ngrams
  | PersonMatcher
  | CandidateExtractor
  | query_documents
  | split_corpus_loop
  | extractor_apply nat
  | query_candidates nat
  | SentenceNgramViewer
  | get_selected
  | call_get_contexts
  | call_get_parent
  | get_span
  | get_attrib_tokens

text \<open>
  What the notebook reads from outside: the environment, the documents that the query
  returns, and the candidates that the framework holds for a split once the extractor has
  run on it.
\<close>

record world =
  os_environ :: environ
  stored_documents :: "document list"
  stored_candidates :: "nat \<Rightarrow> candidate list"

text \<open>
  The state of the notebook: the calls made so far, and the variables on which a later
  cell can fail. \<open>sv\<close> is true when \<^verbatim>\<open>sv\<close> is a viewer and false when it is
  \<^verbatim>\<open>None\<close>; \<open>var_c\<close> and \<open>var_span\<close> are the variables \<^verbatim>\<open>c\<close> and \<^verbatim>\<open>span\<close>,
  unbound at first.
\<close>

record notebook_state =
  calls :: "call list"
  split_sets :: split_state
  train_cands :: "candidate list"
  sv :: bool
  var_c :: "candidate option"
  var_span :: "context_ref option"

definition made :: "call \<Rightarrow> notebook_state \<Rightarrow> notebook_state" where
  "made k st = st\<lparr>calls := calls st @ [k]\<rparr>"

text \<open>A cell gives the state in which it ends and the exception it raised, if any.\<close>

type_synonym cell = "world \<Rightarrow> notebook_state \<Rightarrow> notebook_state \<times> py_error option"

text \<open>\<^verbatim>\<open>session = SnorkelSession()\<close>\<close>

definition cell_session :: cell where
  "cell_session w st = (made SnorkelSession st, None)"

text \<open>\<^verbatim>\<open>Spouse = candidate_subclass('Spouse', ['person1', 'person2'])\<close>\<close>

definition cell_schema :: cell where
  "cell_schema w st = (made candidate_subclass st, None)"

text \<open>
  \<^verbatim>\<open>
  ngrams         = Ngrams(n_max=3)
  person_matcher = PersonMatcher(longest_match_only=True)
  cand_extractor = CandidateExtractor(Spouse, [ngrams, ngrams], [person_matcher, person_matcher],
                                      symmetric_relations=False)
  \<close>
\<close>

definition cell_extractor :: cell where
  "cell_extractor w st = (made CandidateExtractor (made PersonMatcher (made Ngrams st)), None)"

text \<open>\<^verbatim>\<open>def number_of_people(sentence): ...\<close> defines the helper and calls nothing.\<close>

definition cell_number_of_people :: cell where
  "cell_number_of_people w st = (st, None)"

text \<open>The query for the documents, then the splitting loop.\<close>

definition cell_split :: cell where
  "cell_split w st =
     (let st1 = made query_documents st
      in case split_sentences (os_environ w) (stored_documents w) of
           Inl e \<Rightarrow> (st1, Some e)
         | Inr sets \<Rightarrow> (made split_corpus_loop (st1\<lparr>split_sets := sets\<rparr>), None))"

text \<open>\<^verbatim>\<open>cand_extractor.apply(train_sents, split=0)\<close>\<close>

definition cell_apply_train :: cell where
  "cell_apply_train w st = (made (extractor_apply 0) st, None)"

text \<open>\<^verbatim>\<open>train_cands = session.query(Spouse).filter(Spouse.split == 0).all()\<close>\<close>

definition cell_train_cands :: cell where
  "cell_train_cands w st =
     ((made (query_candidates 0) st)\<lparr>train_cands := stored_candidates w 0\<rparr>, None)"

text \<open>
  \<^verbatim>\<open>
  if 'CI' not in os.environ:
      sv = SentenceNgramViewer(train_cands[:300], session)
  else:
      sv = None
  \<close>
\<close>

definition cell_viewer :: cell where
  "cell_viewer w st =
     (if ''CI'' \<notin> dom (os_environ w) then ((made SentenceNgramViewer st)\<lparr>sv := True\<rparr>, None)
      else (st\<lparr>sv := False\<rparr>, None))"

text \<open>\<^verbatim>\<open>sv\<close> displays the viewer, or nothing.\<close>

definition cell_sv :: cell where
  "cell_sv w st = (st, None)"

text \<open>
  \<^verbatim>\<open>
  if 'CI' not in os.environ:
      print(unicode(sv.get_selected()))
  \<close>
\<close>

definition cell_get_selected :: cell where
  "cell_get_selected w st =
     (if ''CI'' \<notin> dom (os_environ w) then
        (if sv st then (made get_selected st, None) else (st, Some AttributeError))
      else (st, None))"

text \<open>
  \<^verbatim>\<open>
  c = train_cands[0]
  c.person1
  \<close>
  The subscript raises \<^verbatim>\<open>IndexError\<close> when the query returned no candidate.
\<close>

definition cell_person1 :: cell where
  "cell_person1 w st =
     (case subscript (train_cands st) 0 of
        Inl e \<Rightarrow> (st, Some e)
      | Inr x \<Rightarrow> (st\<lparr>var_c := Some x\<rparr>, None))"

text \<open>\<^verbatim>\<open>c.get_contexts()\<close>\<close>

definition cell_get_contexts :: cell where
  "cell_get_contexts w st =
     (case var_c st of
        None \<Rightarrow> (st, Some NameError)
      | Some x \<Rightarrow> (made call_get_contexts st, None))"

text \<open>
  \<^verbatim>\<open>
  span = c.get_contexts()[0]
  print(span)
  print(span.get_parent())
  print(span.get_parent().get_parent())
  \<close>
  The last line calls \<^verbatim>\<open>get_parent\<close> on the parent of the span, which raises
  \<^verbatim>\<open>AttributeError\<close> when the span has no parent.
\<close>

definition cell_get_parent :: cell where
  "cell_get_parent w st =
     (case var_c st of
        None \<Rightarrow> (st, Some NameError)
      | Some x \<Rightarrow>
         let st1 = made call_get_contexts st
         in case subscript (get_contexts x) 0 of
              Inl e \<Rightarrow> (st1, Some e)
            | Inr sp \<Rightarrow>
               let st2 = made call_get_parent (st1\<lparr>var_span := Some sp\<rparr>);
                   st3 = made call_get_parent st2
               in case get_parent sp of
                    None \<Rightarrow> (st3, Some AttributeError)
                  | Some p \<Rightarrow> (made call_get_parent st3, None))"

text \<open>
  \<^verbatim>\<open>
  print(span.get_span())
  print(span.get_attrib_tokens())
  print(span.get_attrib_tokens('pos_tags'))
  \<close>
\<close>

definition cell_get_span :: cell where
  "cell_get_span w st =
     (case var_span st of
        None \<Rightarrow> (st, Some NameError)
      | Some sp \<Rightarrow> (made get_attrib_tokens (made get_attrib_tokens (made get_span st)), None))"

text \<open>
  \<^verbatim>\<open>
  for i, sents in enumerate([dev_sents, test_sents]):
      cand_extractor.apply(sents, split=i+1)
      print("Number of candidates:", session.query(Spouse).filter(Spouse.split == i+1).count())
  \<close>
\<close>

definition cell_dev_test :: cell where
  "cell_dev_test w st =
     (fold (\<lambda>(i, sents) st. made (query_candidates (i + 1)) (made (extractor_apply (i + 1)) st))
        (enumerate 0 [dev_sents (split_sets st), test_sents (split_sets st)]) st,
      None)"

text \<open>Running cells in order, up to the first that raises; the cells of the notebook.\<close>

fun run_cells :: "cell list \<Rightarrow> world \<Rightarrow> notebook_state \<Rightarrow> notebook_state \<times> py_error option" where
  "run_cells [] w st = (st, None)"
| "run_cells (k # ks) w st =
     (case k w st of
        (st', None) \<Rightarrow> run_cells ks w st'
      | (st', Some e) \<Rightarrow> (st', Some e))"

definition notebook_cells :: "cell list" where
  "notebook_cells =
     [cell_session, cell_schema, cell_extractor, cell_number_of_people, cell_split,
      cell_apply_train, cell_train_cands, cell_viewer, cell_sv, cell_get_selected,
      cell_person1, cell_get_contexts, cell_get_parent, cell_get_span, cell_dev_test]"

definition run_notebook :: "world \<Rightarrow> notebook_state \<times> py_error option" where
  "run_notebook w =
     run_cells notebook_cells w
       \<lparr>calls = [], split_sets = \<lparr>train_sents = {}, dev_sents = {}, test_sents = {}\<rparr>,
        train_cands = [], sv = False, var_c = None, var_span = None\<rparr>"

text \<open>
  The six steps of the overview, the step each call belongs to, and the position of a
  step in the overview.
\<close>

datatype step =
  OpenSession | DefineSchema | ConfigureExtractor | SplitCorpus | RunExtraction | InspectResults

fun step_of :: "call \<Rightarrow> step" where
  "step_of SnorkelSession = OpenSession"
| "step_of candidate_subclass = DefineSchema"
| "step_of Ngrams = ConfigureExtractor"
| "step_of PersonMatcher = ConfigureExtractor"
| "step_of CandidateExtractor = ConfigureExtractor"
| "step_of query_documents = SplitCorpus"
| "step_of split_corpus_loop = SplitCorpus"
| "step_of (extractor_apply k) = RunExtraction"
| "step_of c = InspectResults"



subsection \<open>A small corpus\<close>

text \<open>
  Ten documents of one sentence each, for running the definitions. The sentence of the
  document at index 3 mentions five people; every other sentence mentions two.
\<close>

definition example_environ :: environ where
  "example_environ = [''CI'' \<mapsto> ''true'']"

definition example_sentence :: "nat \<Rightarrow> sentence" where
  "example_sentence k =
     \<lparr>sentence_id = k,
      ner_tags = (if k = 3 then [''PERSON'', ''O'', ''PERSON'', ''O'', ''PERSON'', ''O'',
                                  ''PERSON'', ''O'', ''PERSON'']
                  else [''PERSON'', ''PERSON'', ''O'', ''PERSON''])\<rparr>"

definition example_docs :: "document list" where
  "example_docs =
     map (\<lambda>k. \<lparr>name = replicate (Suc k) CHR ''a'', sentences = [example_sentence k]\<rparr>) [0..<10]"

definition example_result :: split_state where
  "example_result =
     \<lparr>train_sents = example_sentence ` {0, 1, 2, 4, 5, 6, 7},
      dev_sents = {example_sentence 8},
      test_sents = {example_sentence 9}\<rparr>"

definition example_candidate :: candidate where
  "example_candidate = \<lparr>person1 = Span 0 0 0 1, person2 = Span 0 0 3 3\<rparr>"


section \<open>Verification\<close>

subsection \<open>Properties of the count\<close>

lemma loop_count_lower: "count \<le> snd (number_of_people_loop tags (a, count))"
proof (induction tags arbitrary: a count)
  case Nil
  show ?case by simp
next
  case (Cons t ts)
  have "count \<le> count + 1" by simp
  also have "count + 1 \<le> snd (number_of_people_loop ts (True, count + 1))"
    by (rule Cons.IH)
  finally have up: "count \<le> snd (number_of_people_loop ts (True, count + 1))" .
  show ?case using up Cons.IH [of count] by simp
qed

lemma loop_count_upper:
  "snd (number_of_people_loop tags (a, count)) \<le> count + int (count_list tags ''PERSON'')"
proof (induction tags arbitrary: a count)
  case Nil
  show ?case by simp
next
  case (Cons t ts)
  show ?case
  proof (cases "t = ''PERSON''")
    case True
    have "snd (number_of_people_loop ts (True, count)) \<le> count + int (count_list ts ''PERSON'')"
      by (rule Cons.IH)
    moreover have "snd (number_of_people_loop ts (True, count + 1))
        \<le> count + 1 + int (count_list ts ''PERSON'')"
      by (rule Cons.IH)
    ultimately show ?thesis using True by simp
  next
    case False
    then show ?thesis using Cons.IH [of False count] by simp
  qed
qed

lemma loop_count_idle:
  "''PERSON'' \<notin> set tags \<Longrightarrow> number_of_people_loop tags (False, count) = (False, count)"
  by (induction tags) auto

lemma loop_count_grows:
  "''PERSON'' \<in> set tags \<Longrightarrow> count < snd (number_of_people_loop tags (False, count))"
proof (induction tags)
  case Nil
  then show ?case by simp
next
  case (Cons t ts)
  show ?case
  proof (cases "t = ''PERSON''")
    case True
    have "count + 1 \<le> snd (number_of_people_loop ts (True, count + 1))"
      by (rule loop_count_lower)
    then show ?thesis using True by simp
  next
    case False
    with Cons show ?thesis by simp
  qed
qed

text \<open>
  C7. For every list of tags the count is a non-negative integer, it is at most the number
  of entries equal to PERSON, it is zero exactly when no entry is PERSON, and two adjacent
  PERSON tags count as one person.
\<close>

theorem number_of_people_bounds:
  "0 \<le> number_of_people s
   \<and> number_of_people s \<le> int (count_list (ner_tags s) ''PERSON'')
   \<and> (number_of_people s = 0 \<longleftrightarrow> ''PERSON'' \<notin> set (ner_tags s))
   \<and> number_of_people \<lparr>sentence_id = k, ner_tags = [''PERSON'', ''PERSON'']\<rparr> = 1"
proof -
  have lo: "0 \<le> number_of_people s"
    unfolding number_of_people_def by (rule loop_count_lower)
  have hi: "number_of_people s \<le> int (count_list (ner_tags s) ''PERSON'')"
    unfolding number_of_people_def using loop_count_upper [of "ner_tags s" False 0] by simp
  have zero: "number_of_people s = 0 \<longleftrightarrow> ''PERSON'' \<notin> set (ner_tags s)"
  proof
    assume z: "number_of_people s = 0"
    show "''PERSON'' \<notin> set (ner_tags s)"
    proof
      assume "''PERSON'' \<in> set (ner_tags s)"
      then have "0 < number_of_people s"
        unfolding number_of_people_def by (rule loop_count_grows)
      with z show False by simp
    qed
  next
    assume "''PERSON'' \<notin> set (ner_tags s)"
    then show "number_of_people s = 0"
      unfolding number_of_people_def by (simp add: loop_count_idle)
  qed
  have two: "number_of_people \<lparr>sentence_id = k, ner_tags = [''PERSON'', ''PERSON'']\<rparr> = 1"
    by (simp add: number_of_people_def)
  from lo hi zero two show ?thesis by blast
qed

subsection \<open>The count is the number of runs\<close>

lemma loop_append:
  "number_of_people_loop (xs @ ys) st = number_of_people_loop ys (number_of_people_loop xs st)"
proof (induction xs arbitrary: st)
  case Nil
  show ?case by (cases st) simp
next
  case (Cons x xs)
  show ?case by (cases st) (simp add: Cons.IH)
qed

lemma finite_starts: "finite (person_run_starts tags)"
  unfolding person_run_starts_def by simp

lemma starts_snoc:
  "person_run_starts (xs @ [x]) =
     (if x = ''PERSON'' \<and> \<not> (xs \<noteq> [] \<and> last xs = ''PERSON'')
      then insert (length xs) (person_run_starts xs) else person_run_starts xs)"
proof (cases "xs = []")
  case True
  then show ?thesis unfolding person_run_starts_def by auto
next
  case False
  then have l: "last xs = xs ! (length xs - 1)" by (rule last_conv_nth)
  show ?thesis unfolding person_run_starts_def using False l
    by (auto simp: nth_append less_Suc_eq)
qed

lemma starts_bound: "i \<in> person_run_starts tags \<Longrightarrow> i < length tags"
  unfolding person_run_starts_def by simp

lemma loop_invariant:
  "number_of_people_loop tags (False, 0) =
     (tags \<noteq> [] \<and> last tags = ''PERSON'', int (card (person_run_starts tags)))"
proof (induction tags rule: rev_induct)
  case Nil
  show ?case by (simp add: person_run_starts_def)
next
  case (snoc x xs)
  have fresh: "length xs \<notin> person_run_starts xs"
    using starts_bound [of "length xs" xs] by blast
  show ?case
    by (simp add: loop_append snoc.IH starts_snoc finite_starts fresh)
qed

lemma runs_fst_inj: "inj_on fst (maximal_person_runs tags)"
proof (rule inj_onI)
  fix p q
  assume p: "p \<in> maximal_person_runs tags" and q: "q \<in> maximal_person_runs tags"
    and e: "fst p = fst q"
  obtain i j where pq: "p = (i, j)" by (cases p)
  obtain i' j' where qq: "q = (i', j')" by (cases q)
  have ii: "i' = i" using e pq qq by simp
  have "\<not> j < j'"
  proof
    assume l: "j < j'"
    then have "tags ! j = ''PERSON''" using p q pq qq ii
      unfolding maximal_person_runs_def by auto
    moreover have "j \<noteq> length tags" using l q qq unfolding maximal_person_runs_def by auto
    ultimately show False using p pq unfolding maximal_person_runs_def by auto
  qed
  moreover have "\<not> j' < j"
  proof
    assume l: "j' < j"
    then have "tags ! j' = ''PERSON''" using p q pq qq ii
      unfolding maximal_person_runs_def by auto
    moreover have "j' \<noteq> length tags" using l p pq unfolding maximal_person_runs_def by auto
    ultimately show False using q qq unfolding maximal_person_runs_def by auto
  qed
  ultimately show "p = q" using pq qq ii by simp
qed

lemma runs_fst_image: "fst ` maximal_person_runs tags = person_run_starts tags"
proof
  show "fst ` maximal_person_runs tags \<subseteq> person_run_starts tags"
    unfolding maximal_person_runs_def person_run_starts_def by auto
next
  show "person_run_starts tags \<subseteq> fst ` maximal_person_runs tags"
  proof
    fix i assume i: "i \<in> person_run_starts tags"
    define stop where "stop j \<longleftrightarrow> i < j \<and> (j = length tags \<or> tags ! j \<noteq> ''PERSON'')" for j
    define j where "j = (LEAST j. stop j)"
    have il: "i < length tags" and ip: "tags ! i = ''PERSON''"
      and ib: "i = 0 \<or> tags ! (i - 1) \<noteq> ''PERSON''"
      using i unfolding person_run_starts_def by auto
    have ex: "stop (length tags)" using il by (simp add: stop_def)
    have sj: "stop j" unfolding j_def using ex by (rule LeastI)
    have jl: "j \<le> length tags" unfolding j_def using ex by (rule Least_le)
    have mid: "tags ! k = ''PERSON''" if "i \<le> k" "k < j" for k
    proof (cases "k = i")
      case True
      then show ?thesis using ip by simp
    next
      case False
      have "\<not> stop k" using that(2) not_less_Least unfolding j_def by blast
      then show ?thesis using False that(1) by (auto simp: stop_def)
    qed
    have "(i, j) \<in> maximal_person_runs tags"
      unfolding maximal_person_runs_def using sj jl mid ib by (auto simp: stop_def)
    then show "i \<in> fst ` maximal_person_runs tags" by force
  qed
qed

lemma card_runs: "card (maximal_person_runs tags) = card (person_run_starts tags)"
  using card_image [OF runs_fst_inj, of tags] by (simp add: runs_fst_image)

text \<open>
  C1. For every sentence, \<open>number_of_people\<close> returns the number of maximal
  contiguous runs of the tag PERSON in its list of NER tags; adjacent PERSON tags form
  one run and count once.
\<close>

theorem number_of_people_counts_runs:
  "number_of_people s = int (card (maximal_person_runs (ner_tags s)))"
  by (simp add: number_of_people_def loop_invariant card_runs)

theorem number_of_people_counts_runs_witness:
  "card (maximal_person_runs [''PERSON'', ''PERSON'', ''O'', ''PERSON'', ''O'']) = 2"
  using number_of_people_counts_runs
    [of "\<lparr>sentence_id = 0, ner_tags = [''PERSON'', ''PERSON'', ''O'', ''PERSON'', ''O'']\<rparr>"]
  by (simp add: number_of_people_def)

subsection \<open>The thresholds as binary64 numbers\<close>

text \<open>
  The three literals are the binary64 numbers nearest to the decimal fractions, and on the
  ten documents of the small corpus the products are the integers 8 and 9.
\<close>

lemma float_literal_values:
  "float_literal (8 / 10) = 3602879701896397 / 4503599627370496"
  "float_literal (9 / 10) = 8106479329266893 / 9007199254740992"
  "float_literal (95 / 100) = 4278419646001971 / 4503599627370496"
  by code_simp+

lemma float_mul_ten:
  "float_mul (float_literal (8 / 10)) (float_of_int 10) = 8"
  "float_mul (float_literal (9 / 10)) (float_of_int 10) = 9"
  by code_simp+

subsection \<open>The result of the splitting loop\<close>

lemma splits_two: "\<exists>c0 c1. splits env = [c0, c1]"
  by (simp add: splits_def)

lemma place_two:
  "place_sentence [c0, c1] ld i s st =
     Inr \<lparr>train_sents = train_sents st \<union> {x. x = s \<and> kept c0 c1 ld 0 i x},
          dev_sents = dev_sents st \<union> {x. x = s \<and> kept c0 c1 ld 1 i x},
          test_sents = test_sents st \<union> {x. x = s \<and> kept c0 c1 ld 2 i x}\<rparr>"
  by (cases st) (auto simp: place_sentence_def subscript_def kept_def)

lemma sentences_two:
  "sentences_loop [c0, c1] ld i ss st =
     Inr \<lparr>train_sents = train_sents st \<union> {x \<in> set ss. kept c0 c1 ld 0 i x},
          dev_sents = dev_sents st \<union> {x \<in> set ss. kept c0 c1 ld 1 i x},
          test_sents = test_sents st \<union> {x \<in> set ss. kept c0 c1 ld 2 i x}\<rparr>"
proof (induction ss arbitrary: st)
  case Nil
  show ?case by simp
next
  case (Cons s ss)
  show ?case by (simp add: place_two Cons.IH) blast
qed

lemma docs_two:
  "docs_loop [c0, c1] ld (enumerate n ds) st =
     Inr \<lparr>train_sents = train_sents st \<union>
            {x. \<exists>j<length ds. x \<in> set (sentences (ds ! j)) \<and> kept c0 c1 ld 0 (n + j) x},
          dev_sents = dev_sents st \<union>
            {x. \<exists>j<length ds. x \<in> set (sentences (ds ! j)) \<and> kept c0 c1 ld 1 (n + j) x},
          test_sents = test_sents st \<union>
            {x. \<exists>j<length ds. x \<in> set (sentences (ds ! j)) \<and> kept c0 c1 ld 2 (n + j) x}\<rparr>"
proof (induction ds arbitrary: n st)
  case Nil
  show ?case by simp
next
  case (Cons d ds)
  have ex: "(\<exists>j<Suc (length ds). Q j) \<longleftrightarrow> Q 0 \<or> (\<exists>j<length ds. Q (Suc j))" for Q
    by (metis less_Suc_eq_0_disj)
  show ?case
    by (simp add: sentences_two Cons.IH ex) blast
qed

lemma split_sentences_result:
  assumes "splits env = [c0, c1]"
  shows "split_sentences env docs =
     Inr \<lparr>train_sents =
            {x. \<exists>j<length docs. x \<in> set (sentences (docs ! j)) \<and> kept c0 c1 (length docs) 0 j x},
          dev_sents =
            {x. \<exists>j<length docs. x \<in> set (sentences (docs ! j)) \<and> kept c0 c1 (length docs) 1 j x},
          test_sents =
            {x. \<exists>j<length docs. x \<in> set (sentences (docs ! j)) \<and> kept c0 c1 (length docs) 2 j x}\<rparr>"
  unfolding split_sentences_def assms using docs_two [of c0 c1 "length docs" 0 docs] by simp

lemma example_run: "split_sentences example_environ example_docs = Inr example_result"
  by code_simp

lemma example_ci: "''CI'' \<in> dom example_environ"
  by (simp add: example_environ_def)

lemma example_length: "length example_docs = 10"
  by (simp add: example_docs_def)

lemma example_own:
  "\<forall>i<length example_docs. \<forall>j<length example_docs.
     i \<noteq> j \<longrightarrow> set (sentences (example_docs ! i)) \<inter> set (sentences (example_docs ! j)) = {}"
  by (simp add: example_docs_def example_sentence_def)

lemma split_returns: "\<exists>sets. split_sentences env docs = Inr sets"
proof -
  obtain c0 c1 where "splits env = [c0, c1]" using splits_two by blast
  then show ?thesis using split_sentences_result by blast
qed

text \<open>
  C2. Sentences are assigned by the index of their document. With \<open>ld\<close> the number of
  documents and the thresholds 0.8 and 0.9 when CI is in the environment, 0.9 and 0.95
  otherwise, the train set holds exactly the sentences with fewer than five people of the
  documents at an index \<open>i < splits[0] * ld\<close>, the dev set those at an index with
  \<open>splits[0] * ld \<le> i < splits[1] * ld\<close>, the test set those of the remaining documents;
  a sentence with five or more people is in no set.
\<close>

theorem split_by_document_index:
  assumes c0: "c0 = (if ''CI'' \<in> dom env then float_literal (8 / 10) else float_literal (9 / 10))"
    and c1: "c1 = (if ''CI'' \<in> dom env then float_literal (9 / 10) else float_literal (95 / 100))"
    and ld: "ld = length docs"
  shows "\<exists>st. split_sentences env docs = Inr st
       \<and> train_sents st =
           {s. \<exists>i<ld. s \<in> set (sentences (docs ! i)) \<and> number_of_people s < 5
                 \<and> of_nat i < float_mul c0 (float_of_int (int ld))}
       \<and> dev_sents st =
           {s. \<exists>i<ld. s \<in> set (sentences (docs ! i)) \<and> number_of_people s < 5
                 \<and> float_mul c0 (float_of_int (int ld)) \<le> of_nat i
                 \<and> of_nat i < float_mul c1 (float_of_int (int ld))}
       \<and> test_sents st =
           {s. \<exists>i<ld. s \<in> set (sentences (docs ! i)) \<and> number_of_people s < 5
                 \<and> float_mul c0 (float_of_int (int ld)) \<le> of_nat i
                 \<and> float_mul c1 (float_of_int (int ld)) \<le> of_nat i}
       \<and> (\<forall>s. 5 \<le> number_of_people s \<longrightarrow>
             s \<notin> train_sents st \<union> dev_sents st \<union> test_sents st)"
proof -
  have sp: "splits env = [c0, c1]" by (simp add: splits_def c0 c1)
  obtain st where run: "split_sentences env docs = Inr st"
    using split_sentences_result [OF sp] by blast
  note r = run [unfolded split_sentences_result [OF sp], simplified]
  have tr: "train_sents st =
      {x. \<exists>j<length docs. x \<in> set (sentences (docs ! j)) \<and> kept c0 c1 (length docs) 0 j x}"
    using r by auto
  have dv: "dev_sents st =
      {x. \<exists>j<length docs. x \<in> set (sentences (docs ! j)) \<and> kept c0 c1 (length docs) 1 j x}"
    using r by auto
  have te: "test_sents st =
      {x. \<exists>j<length docs. x \<in> set (sentences (docs ! j)) \<and> kept c0 c1 (length docs) 2 j x}"
    using r by auto
  have k0: "kept c0 c1 ld 0 i s \<longleftrightarrow>
      number_of_people s < 5 \<and> of_nat i < float_mul c0 (float_of_int (int ld))" for i s
    by (simp add: kept_def below_def)
  have k1: "kept c0 c1 ld 1 i s \<longleftrightarrow>
      number_of_people s < 5 \<and> float_mul c0 (float_of_int (int ld)) \<le> of_nat i
        \<and> of_nat i < float_mul c1 (float_of_int (int ld))" for i s
    by (auto simp: kept_def below_def)
  have k2: "kept c0 c1 ld 2 i s \<longleftrightarrow>
      number_of_people s < 5 \<and> float_mul c0 (float_of_int (int ld)) \<le> of_nat i
        \<and> float_mul c1 (float_of_int (int ld)) \<le> of_nat i" for i s
    by (auto simp: kept_def below_def)
  have few: "number_of_people s < 5"
    if "s \<in> train_sents st \<union> dev_sents st \<union> test_sents st" for s
    using that unfolding tr dv te by (auto simp: kept_def)
  have a: "train_sents st =
           {s. \<exists>i<ld. s \<in> set (sentences (docs ! i)) \<and> number_of_people s < 5
                 \<and> of_nat i < float_mul c0 (float_of_int (int ld))}"
    unfolding tr ld [symmetric] k0 by simp
  have b: "dev_sents st =
           {s. \<exists>i<ld. s \<in> set (sentences (docs ! i)) \<and> number_of_people s < 5
                 \<and> float_mul c0 (float_of_int (int ld)) \<le> of_nat i
                 \<and> of_nat i < float_mul c1 (float_of_int (int ld))}"
    unfolding dv ld [symmetric] k1 by simp
  have c: "test_sents st =
           {s. \<exists>i<ld. s \<in> set (sentences (docs ! i)) \<and> number_of_people s < 5
                 \<and> float_mul c0 (float_of_int (int ld)) \<le> of_nat i
                 \<and> float_mul c1 (float_of_int (int ld)) \<le> of_nat i}"
    unfolding te ld [symmetric] k2 by simp
  have d: "\<forall>s. 5 \<le> number_of_people s \<longrightarrow>
             s \<notin> train_sents st \<union> dev_sents st \<union> test_sents st"
    using few by fastforce
  from run a b c d show ?thesis by blast
qed

theorem split_by_document_index_witness:
  "split_sentences example_environ example_docs = Inr example_result
   \<and> example_sentence ` {0, 1, 2, 4, 5, 6, 7} =
       {s. \<exists>i<10. s \<in> set (sentences (example_docs ! i)) \<and> number_of_people s < 5
             \<and> of_nat i < float_mul (float_literal (8 / 10)) (float_of_int 10)}
   \<and> {example_sentence 8} =
       {s. \<exists>i<10. s \<in> set (sentences (example_docs ! i)) \<and> number_of_people s < 5
             \<and> float_mul (float_literal (8 / 10)) (float_of_int 10) \<le> of_nat i
             \<and> of_nat i < float_mul (float_literal (9 / 10)) (float_of_int 10)}
   \<and> {example_sentence 9} =
       {s. \<exists>i<10. s \<in> set (sentences (example_docs ! i)) \<and> number_of_people s < 5
             \<and> float_mul (float_literal (8 / 10)) (float_of_int 10) \<le> of_nat i
             \<and> float_mul (float_literal (9 / 10)) (float_of_int 10) \<le> of_nat i}
   \<and> 5 \<le> number_of_people (example_sentence 3)
   \<and> example_sentence 3 \<notin> train_sents example_result"
proof -
  have ci: "(if ''CI'' \<in> dom example_environ then a else b) = a" for a b :: rat
    by (simp add: example_ci)
  note t = split_by_document_index [OF refl refl refl, of example_environ example_docs,
      unfolded ci example_length example_run, simplified]
  have crowd: "5 \<le> number_of_people (example_sentence 3)"
    by (simp add: example_sentence_def number_of_people_def)
  have out: "example_sentence 3 \<notin> train_sents example_result"
    using t crowd by blast
  have tr: "train_sents example_result = example_sentence ` {0, 1, 2, 4, 5, 6, 7}"
    and dv: "dev_sents example_result = {example_sentence 8}"
    and te: "test_sents example_result = {example_sentence 9}"
    by (simp_all add: example_result_def)
  show ?thesis using t example_run crowd out unfolding tr dv te by simp
qed

text \<open>
  C3. When every sentence belongs to exactly one document, the three sets are pairwise
  disjoint after the loop, and every sentence in any of them mentions fewer than five
  people.
\<close>

theorem split_sets_disjoint:
  assumes own: "\<forall>i<length docs. \<forall>j<length docs.
                 i \<noteq> j \<longrightarrow> set (sentences (docs ! i)) \<inter> set (sentences (docs ! j)) = {}"
  shows "\<exists>st. split_sentences env docs = Inr st
       \<and> train_sents st \<inter> dev_sents st = {}
       \<and> train_sents st \<inter> test_sents st = {}
       \<and> dev_sents st \<inter> test_sents st = {}
       \<and> (\<forall>s \<in> train_sents st \<union> dev_sents st \<union> test_sents st. number_of_people s < 5)"
proof -
  obtain c0 c1 where sp: "splits env = [c0, c1]" using splits_two by blast
  obtain st where run: "split_sentences env docs = Inr st"
    using split_sentences_result [OF sp] by blast
  note r = run [unfolded split_sentences_result [OF sp], simplified]
  define member where "member k x \<longleftrightarrow>
      (\<exists>j<length docs. x \<in> set (sentences (docs ! j)) \<and> kept c0 c1 (length docs) k j x)" for k x
  have tr: "train_sents st = {x. member 0 x}" using r by (auto simp: member_def)
  have dv: "dev_sents st = {x. member 1 x}" using r by (auto simp: member_def)
  have te: "test_sents st = {x. member 2 x}" using r by (auto simp: member_def)
  have same: "k = k'" if m: "member k x" and m': "member k' x" for k k' x
  proof -
    obtain j where j: "j < length docs" "x \<in> set (sentences (docs ! j))"
      "kept c0 c1 (length docs) k j x" using m unfolding member_def by blast
    obtain j' where j': "j' < length docs" "x \<in> set (sentences (docs ! j'))"
      "kept c0 c1 (length docs) k' j' x" using m' unfolding member_def by blast
    have "j = j'"
    proof (rule ccontr)
      assume "j \<noteq> j'"
      then have "set (sentences (docs ! j)) \<inter> set (sentences (docs ! j')) = {}"
        using own j(1) j'(1) by blast
      then show False using j(2) j'(2) by blast
    qed
    then show ?thesis using j(3) j'(3) by (auto simp: kept_def split: if_splits)
  qed
  have few: "number_of_people x < 5" if "member k x" for k x
    using that by (auto simp: member_def kept_def)
  have a: "train_sents st \<inter> dev_sents st = {}" unfolding tr dv using same [of 0 _ 1] by auto
  have b: "train_sents st \<inter> test_sents st = {}" unfolding tr te using same [of 0 _ 2] by auto
  have c: "dev_sents st \<inter> test_sents st = {}" unfolding dv te using same [of 1 _ 2] by auto
  have d: "\<forall>s \<in> train_sents st \<union> dev_sents st \<union> test_sents st. number_of_people s < 5"
    unfolding tr dv te using few by auto
  from run a b c d show ?thesis by blast
qed

theorem split_sets_disjoint_witness:
  "split_sentences example_environ example_docs = Inr example_result
   \<and> train_sents example_result \<inter> dev_sents example_result = {}
   \<and> train_sents example_result \<inter> test_sents example_result = {}
   \<and> dev_sents example_result \<inter> test_sents example_result = {}
   \<and> example_sentence 0 \<in> train_sents example_result
   \<and> example_sentence 8 \<in> dev_sents example_result
   \<and> example_sentence 9 \<in> test_sents example_result
   \<and> number_of_people (example_sentence 8) < 5"
proof -
  note t = split_sets_disjoint [OF example_own, of example_environ,
      unfolded example_run, simplified]
  have m: "example_sentence 0 \<in> train_sents example_result"
    "example_sentence 8 \<in> dev_sents example_result"
    "example_sentence 9 \<in> test_sents example_result"
    by (simp_all add: example_result_def)
  have "number_of_people (example_sentence 8) < 5" using t m(2) by blast
  then show ?thesis using t m example_run by blast
qed

text \<open>
  C8. The assignment is deterministic and uses nothing of the environment but the
  presence of CI: two runs over the same list of documents, in environments that agree on
  whether CI is present, give the same train, dev and test sets.
\<close>

theorem split_depends_on_ci_only:
  assumes "(''CI'' \<in> dom env) = (''CI'' \<in> dom env')"
  shows "split_sentences env docs = split_sentences env' docs"
proof -
  have "splits env = splits env'" using assms by (simp add: splits_def)
  then show ?thesis by (simp add: split_sentences_def)
qed

theorem split_depends_on_ci_only_witness:
  "example_environ \<noteq> [''CI'' \<mapsto> ''1'', ''HOME'' \<mapsto> ''/root'']
   \<and> split_sentences example_environ example_docs =
       split_sentences [''CI'' \<mapsto> ''1'', ''HOME'' \<mapsto> ''/root''] example_docs
   \<and> split_sentences [''CI'' \<mapsto> ''1'', ''HOME'' \<mapsto> ''/root''] example_docs = Inr example_result"
proof -
  have p: "(''CI'' \<in> dom example_environ) = (''CI'' \<in> dom [''CI'' \<mapsto> ''1'', ''HOME'' \<mapsto> ''/root''])"
    by (simp add: example_environ_def)
  have d: "example_environ ''CI'' \<noteq> [''CI'' \<mapsto> ''1'', ''HOME'' \<mapsto> ''/root''] ''CI''"
    by (simp add: example_environ_def)
  then have "example_environ \<noteq> [''CI'' \<mapsto> ''1'', ''HOME'' \<mapsto> ''/root'']" by metis
  then show ?thesis
    using split_depends_on_ci_only [OF p, of example_docs] example_run by simp
qed

subsection \<open>Parents in the context hierarchy\<close>

lemma parent_of_contained: "contains_context corpus p x \<Longrightarrow> get_parent x = Some p"
  by (induction corpus p x rule: contains_context.induct) auto

text \<open>
  C6. For every span among the contexts of a candidate extracted from a corpus, the parent
  of the span is the sentence that contains it, and the parent of that sentence is the
  document that contains the sentence; nothing else contains them.
\<close>

theorem span_parent_chain:
  assumes c: "extracted_from corpus c" and x: "x \<in> set (get_contexts c)"
  shows "\<exists>d k a b. x = Span d k a b
           \<and> get_parent x = Some (Sentence d k)
           \<and> contains_context corpus (Sentence d k) x
           \<and> get_parent (Sentence d k) = Some (Document d)
           \<and> contains_context corpus (Document d) (Sentence d k)
           \<and> (\<forall>p. contains_context corpus p x \<longrightarrow> p = Sentence d k)
           \<and> (\<forall>p. contains_context corpus p (Sentence d k) \<longrightarrow> p = Document d)"
proof -
  have "case x of Span d k a b \<Rightarrow> contains_context corpus (Sentence d k) x | _ \<Rightarrow> False"
    using c x unfolding extracted_from_def list_all_iff by blast
  then obtain d k a b where s: "x = Span d k a b"
    and i: "contains_context corpus (Sentence d k) x"
    by (cases x) auto
  have j: "contains_context corpus (Document d) (Sentence d k)" using i s by simp
  have u: "p = Sentence d k" if "contains_context corpus p x" for p
    using parent_of_contained [OF that] s by simp
  have v: "p = Document d" if "contains_context corpus p (Sentence d k)" for p
    using parent_of_contained [OF that] by simp
  show ?thesis using s i j u v by auto
qed

theorem span_parent_chain_witness:
  "extracted_from example_docs example_candidate
   \<and> get_contexts example_candidate = [Span 0 0 0 1, Span 0 0 3 3]
   \<and> get_parent (Span 0 0 3 3) = Some (Sentence 0 0)
   \<and> contains_context example_docs (Sentence 0 0) (Span 0 0 3 3)
   \<and> get_parent (Sentence 0 0) = Some (Document 0)
   \<and> contains_context example_docs (Document 0) (Sentence 0 0)"
proof -
  have e: "extracted_from example_docs example_candidate"
    by (simp add: extracted_from_def get_contexts_def example_candidate_def example_docs_def
        example_sentence_def)
  have g: "get_contexts example_candidate = [Span 0 0 0 1, Span 0 0 3 3]"
    by (simp add: get_contexts_def example_candidate_def)
  have x: "Span 0 0 3 3 \<in> set (get_contexts example_candidate)" by (simp add: g)
  from span_parent_chain [OF e x] show ?thesis using e g by auto
qed

subsection \<open>The order of the steps\<close>

lemmas cell_defs = cell_session_def cell_schema_def cell_extractor_def cell_number_of_people_def
  cell_split_def cell_apply_train_def cell_train_cands_def cell_viewer_def cell_sv_def
  cell_get_selected_def cell_person1_def cell_get_contexts_def cell_get_parent_def
  cell_get_span_def cell_dev_test_def





text \<open>
  When the query returns no train candidate, the run stops with \<^verbatim>\<open>IndexError\<close> at
  \<^verbatim>\<open>c = train_cands[0]\<close>: the calls made up to there go through the six steps once,
  and the dev and the test set are never extracted from.
\<close>

lemma notebook_stops_without_candidates:
  assumes "stored_candidates w 0 = []"
  shows "\<exists>st. run_notebook w = (st, Some IndexError)
     \<and> remdups_adj (map step_of (calls st)) =
         [OpenSession, DefineSchema, ConfigureExtractor, SplitCorpus, RunExtraction,
          InspectResults]
     \<and> filter (\<lambda>k. step_of k = RunExtraction) (calls st) = [extractor_apply 0]"
proof -
  obtain sets where r: "split_sentences (os_environ w) (stored_documents w) = Inr sets"
    using split_returns by blast
  show ?thesis
    by (cases "''CI'' \<in> dom (os_environ w)")
      (simp_all add: run_notebook_def notebook_cells_def cell_defs made_def r assms subscript_def)
qed

subsection \<open>The authored code runs without failure\<close>

lemma no_error_branches:
  "sum_list (map error_branches (number_of_people_body @ split_cell)) = 0"
  by (simp add: number_of_people_body_def number_of_people_for_body_def split_cell_def
      split_document_body_def split_sentence_body_def splits_value_def)

lemma number_of_people_for:
  assumes "\<sigma> ''active_sequence'' = Some (PBool a)" and "\<sigma> ''count'' = Some (PInt c)"
  shows "\<exists>\<sigma>'. exec_for F E [''tag''] number_of_people_for_body (map PStr tags) \<sigma> = Normal \<sigma>'
           \<and> \<sigma>' ''active_sequence'' = Some (PBool (fst (number_of_people_loop tags (a, c))))
           \<and> \<sigma>' ''count'' = Some (PInt (snd (number_of_people_loop tags (a, c))))"
  using assms
proof (induction tags arbitrary: \<sigma> a c)
  case Nil
  then show ?case by simp
next
  case (Cons t ts)
  let ?\<sigma> = "\<sigma>(''tag'' \<mapsto> PStr t)"
  have s1: "?\<sigma> ''active_sequence'' = Some (PBool a)" "?\<sigma> ''count'' = Some (PInt c)"
    using Cons.prems by simp_all
  consider (start) "t = ''PERSON''" "\<not> a" | (stop) "t \<noteq> ''PERSON''" "a"
    | (stay) "(t = ''PERSON'') = a" by blast
  then show ?case
  proof cases
    case start
    let ?\<tau> = "?\<sigma>(''active_sequence'' \<mapsto> PBool True, ''count'' \<mapsto> PInt (c + 1))"
    have b: "exec_block F E number_of_people_for_body ?\<sigma> = Normal ?\<tau>"
      using start s1 by (simp add: number_of_people_for_body_def and_then_def)
    have "?\<tau> ''active_sequence'' = Some (PBool True)" "?\<tau> ''count'' = Some (PInt (c + 1))"
      by simp_all
    from Cons.IH [OF this] obtain \<sigma>' where
      "exec_for F E [''tag''] number_of_people_for_body (map PStr ts) ?\<tau> = Normal \<sigma>'"
      "\<sigma>' ''active_sequence'' = Some (PBool (fst (number_of_people_loop ts (True, c + 1))))"
      "\<sigma>' ''count'' = Some (PInt (snd (number_of_people_loop ts (True, c + 1))))" by blast
    then show ?thesis using start b by simp
  next
    case stop
    let ?\<tau> = "?\<sigma>(''active_sequence'' \<mapsto> PBool False)"
    have b: "exec_block F E number_of_people_for_body ?\<sigma> = Normal ?\<tau>"
      using stop s1 by (simp add: number_of_people_for_body_def and_then_def)
    have "?\<tau> ''active_sequence'' = Some (PBool False)" "?\<tau> ''count'' = Some (PInt c)"
      using s1 by simp_all
    from Cons.IH [OF this] obtain \<sigma>' where
      "exec_for F E [''tag''] number_of_people_for_body (map PStr ts) ?\<tau> = Normal \<sigma>'"
      "\<sigma>' ''active_sequence'' = Some (PBool (fst (number_of_people_loop ts (False, c))))"
      "\<sigma>' ''count'' = Some (PInt (snd (number_of_people_loop ts (False, c))))" by blast
    then show ?thesis using stop b by simp
  next
    case stay
    have b: "exec_block F E number_of_people_for_body ?\<sigma> = Normal ?\<sigma>"
      using stay s1 by (cases a) (simp_all add: number_of_people_for_body_def and_then_def)
    from Cons.IH [OF s1] obtain \<sigma>' where
      "exec_for F E [''tag''] number_of_people_for_body (map PStr ts) ?\<sigma> = Normal \<sigma>'"
      "\<sigma>' ''active_sequence'' = Some (PBool (fst (number_of_people_loop ts (a, c))))"
      "\<sigma>' ''count'' = Some (PInt (snd (number_of_people_loop ts (a, c))))" by blast
    then show ?thesis using stay b by (cases a) simp_all
  qed
qed

lemma number_of_people_call:
  "call_function F E [''sentence''] number_of_people_body [PSentence s]
     = Inr (PInt (number_of_people s))"
proof -
  let ?\<sigma> = "[''sentence'' \<mapsto> PSentence s, ''active_sequence'' \<mapsto> PBool False, ''count'' \<mapsto> PInt 0]"
  have "?\<sigma> ''active_sequence'' = Some (PBool False)" "?\<sigma> ''count'' = Some (PInt 0)"
    by simp_all
  from number_of_people_for [OF this, of F E "ner_tags s"] obtain \<sigma>' where
    f: "exec_for F E [''tag''] number_of_people_for_body (map PStr (ner_tags s)) ?\<sigma> = Normal \<sigma>'"
    and c: "\<sigma>' ''count'' = Some (PInt (snd (number_of_people_loop (ner_tags s) (False, 0))))"
    by blast
  show ?thesis
    by (simp add: call_function_def number_of_people_body_def and_then_def f c number_of_people_def)
qed


lemma holds_add:
  assumes "holds \<sigma> x A"
  shows "\<exists>xs. \<sigma> x = Some (PSet xs)
    \<and> holds (\<sigma>(x \<mapsto> PSet (if PSentence s \<in> set xs then xs else xs @ [PSentence s]))) x (insert s A)"
  using assms unfolding holds_def by auto

lemma holds_other: "x \<noteq> y \<Longrightarrow> holds (\<sigma>(y \<mapsto> v)) x A = holds \<sigma> x A"
  by (simp add: holds_def)

lemma split_sentence_step:
  assumes fr: "frame \<sigma> ld c0 c1" and i: "\<sigma> ''i'' = Some (PInt (int i))"
    and ag: "agrees \<sigma> st"
  shows "\<exists>\<sigma>' st'. exec_block (notebook_callables E) E split_sentence_body (\<sigma>(''s'' \<mapsto> PSentence s))
             = Normal \<sigma>'
           \<and> place_sentence [c0, c1] ld i s st = Inr st'
           \<and> frame \<sigma>' ld c0 c1 \<and> \<sigma>' ''i'' = Some (PInt (int i)) \<and> agrees \<sigma>' st'"
proof -
  let ?\<sigma> = "\<sigma>(''s'' \<mapsto> PSentence s)"
  have np: "eval (notebook_callables E) E ?\<sigma> (Call ''number_of_people'' [Name ''s''])
      = Inr (PInt (number_of_people s))"
    by (simp add: notebook_callables_def and_then_def number_of_people_call)
  have c5: "eval (notebook_callables E) E ?\<sigma>
      (Compare (Call ''number_of_people'' [Name ''s'']) CmpLt (Const (PInt 5)))
      = Inr (PBool (number_of_people s < 5))"
    using np by (simp add: and_then_def del: eval.simps(10))
  have t0: "eval (notebook_callables E) E ?\<sigma>
      (Compare (Name ''i'') CmpLt (Mult (Subscript (Name ''splits'') (Const (PInt 0))) (Name ''ld'')))
      = Inr (PBool (below i c0 ld))"
    using fr i by (simp add: frame_def and_then_def index_def subscript_def below_def)
  have t1: "eval (notebook_callables E) E ?\<sigma>
      (Compare (Name ''i'') CmpLt (Mult (Subscript (Name ''splits'') (Const (PInt 1))) (Name ''ld'')))
      = Inr (PBool (below i c1 ld))"
    using fr i by (simp add: frame_def and_then_def index_def subscript_def below_def)
  have fr': "frame ?\<sigma> ld c0 c1" "?\<sigma> ''i'' = Some (PInt (int i))"
    using fr i by (simp_all add: frame_def)
  have ag': "holds ?\<sigma> ''train_sents'' (train_sents st)" "holds ?\<sigma> ''dev_sents'' (dev_sents st)"
    "holds ?\<sigma> ''test_sents'' (test_sents st)"
    using ag by (simp_all add: agrees_def holds_other)
  consider (crowd) "\<not> number_of_people s < 5"
    | (train) "number_of_people s < 5" "below i c0 ld"
    | (dev) "number_of_people s < 5" "\<not> below i c0 ld" "below i c1 ld"
    | (test) "number_of_people s < 5" "\<not> below i c0 ld" "\<not> below i c1 ld" by blast
  then show ?thesis
  proof cases
    case crowd
    have "exec_block (notebook_callables E) E split_sentence_body ?\<sigma> = Normal ?\<sigma>"
      using crowd c5 by (simp add: split_sentence_body_def del: eval.simps(4))
    moreover have "place_sentence [c0, c1] ld i s st = Inr st"
      using crowd by (simp add: place_sentence_def)
    moreover have "agrees ?\<sigma> st" using ag' by (simp add: agrees_def)
    ultimately show ?thesis using fr' by blast
  next
    case train
    from holds_add [OF ag'(1), of s] obtain xs where
      x: "?\<sigma> ''train_sents'' = Some (PSet xs)"
      and h: "holds (?\<sigma>(''train_sents'' \<mapsto>
            PSet (if PSentence s \<in> set xs then xs else xs @ [PSentence s])))
          ''train_sents'' (insert s (train_sents st))" by blast
    let ?\<tau> = "?\<sigma>(''train_sents'' \<mapsto> PSet (if PSentence s \<in> set xs then xs else xs @ [PSentence s]))"
    have "exec_block (notebook_callables E) E split_sentence_body ?\<sigma> = Normal ?\<tau>"
      using train c5 t0 x
      by (simp add: split_sentence_body_def and_then_def del: eval.simps(4))
    moreover have "place_sentence [c0, c1] ld i s st
        = Inr (st\<lparr>train_sents := insert s (train_sents st)\<rparr>)"
      using train by (simp add: place_sentence_def subscript_def)
    moreover have "agrees ?\<tau> (st\<lparr>train_sents := insert s (train_sents st)\<rparr>)"
      using h ag' by (simp add: agrees_def holds_other)
    moreover have "frame ?\<tau> ld c0 c1" "?\<tau> ''i'' = Some (PInt (int i))"
      using fr' by (simp_all add: frame_def)
    ultimately show ?thesis by blast
  next
    case dev
    from holds_add [OF ag'(2), of s] obtain xs where
      x: "?\<sigma> ''dev_sents'' = Some (PSet xs)"
      and h: "holds (?\<sigma>(''dev_sents'' \<mapsto>
            PSet (if PSentence s \<in> set xs then xs else xs @ [PSentence s])))
          ''dev_sents'' (insert s (dev_sents st))" by blast
    let ?\<tau> = "?\<sigma>(''dev_sents'' \<mapsto> PSet (if PSentence s \<in> set xs then xs else xs @ [PSentence s]))"
    have "exec_block (notebook_callables E) E split_sentence_body ?\<sigma> = Normal ?\<tau>"
      using dev c5 t0 t1 x
      by (simp add: split_sentence_body_def and_then_def del: eval.simps(4))
    moreover have "place_sentence [c0, c1] ld i s st
        = Inr (st\<lparr>dev_sents := insert s (dev_sents st)\<rparr>)"
      using dev by (simp add: place_sentence_def subscript_def)
    moreover have "agrees ?\<tau> (st\<lparr>dev_sents := insert s (dev_sents st)\<rparr>)"
      using h ag' by (simp add: agrees_def holds_other)
    moreover have "frame ?\<tau> ld c0 c1" "?\<tau> ''i'' = Some (PInt (int i))"
      using fr' by (simp_all add: frame_def)
    ultimately show ?thesis by blast
  next
    case test
    from holds_add [OF ag'(3), of s] obtain xs where
      x: "?\<sigma> ''test_sents'' = Some (PSet xs)"
      and h: "holds (?\<sigma>(''test_sents'' \<mapsto>
            PSet (if PSentence s \<in> set xs then xs else xs @ [PSentence s])))
          ''test_sents'' (insert s (test_sents st))" by blast
    let ?\<tau> = "?\<sigma>(''test_sents'' \<mapsto> PSet (if PSentence s \<in> set xs then xs else xs @ [PSentence s]))"
    have "exec_block (notebook_callables E) E split_sentence_body ?\<sigma> = Normal ?\<tau>"
      using test c5 t0 t1 x
      by (simp add: split_sentence_body_def and_then_def del: eval.simps(4))
    moreover have "place_sentence [c0, c1] ld i s st
        = Inr (st\<lparr>test_sents := insert s (test_sents st)\<rparr>)"
      using test by (simp add: place_sentence_def subscript_def)
    moreover have "agrees ?\<tau> (st\<lparr>test_sents := insert s (test_sents st)\<rparr>)"
      using h ag' by (simp add: agrees_def holds_other)
    moreover have "frame ?\<tau> ld c0 c1" "?\<tau> ''i'' = Some (PInt (int i))"
      using fr' by (simp_all add: frame_def)
    ultimately show ?thesis by blast
  qed
qed


lemma split_sentences_for:
  assumes "frame \<sigma> ld c0 c1" and "\<sigma> ''i'' = Some (PInt (int i))" and "agrees \<sigma> st"
  shows "\<exists>\<sigma>' st'. exec_for (notebook_callables E) E [''s''] split_sentence_body
               (map PSentence ss) \<sigma> = Normal \<sigma>'
           \<and> sentences_loop [c0, c1] ld i ss st = Inr st'
           \<and> frame \<sigma>' ld c0 c1 \<and> agrees \<sigma>' st'"
  using assms
proof (induction ss arbitrary: \<sigma> st)
  case Nil
  then show ?case by simp
next
  case (Cons s ss)
  from split_sentence_step [OF Cons.prems, of E s] obtain \<tau> st1 where
    b: "exec_block (notebook_callables E) E split_sentence_body (\<sigma>(''s'' \<mapsto> PSentence s))
          = Normal \<tau>"
    and p: "place_sentence [c0, c1] ld i s st = Inr st1"
    and inv: "frame \<tau> ld c0 c1" "\<tau> ''i'' = Some (PInt (int i))" "agrees \<tau> st1"
    by blast
  from Cons.IH [OF inv] obtain \<sigma>' st' where
    "exec_for (notebook_callables E) E [''s''] split_sentence_body (map PSentence ss) \<tau>
       = Normal \<sigma>'"
    "sentences_loop [c0, c1] ld i ss st1 = Inr st'" "frame \<sigma>' ld c0 c1" "agrees \<sigma>' st'"
    by blast
  then show ?case using b p by simp
qed

lemma split_documents_for:
  assumes "frame \<sigma> ld c0 c1" and "agrees \<sigma> st"
  shows "\<exists>\<sigma>' st'. exec_for (notebook_callables E) E [''i'', ''doc''] split_document_body
               (map (\<lambda>(i, v). PTuple [PInt (int i), v]) (enumerate n (map PDocument ds))) \<sigma>
             = Normal \<sigma>'
           \<and> docs_loop [c0, c1] ld (enumerate n ds) st = Inr st'
           \<and> frame \<sigma>' ld c0 c1 \<and> agrees \<sigma>' st'"
  using assms
proof (induction ds arbitrary: n \<sigma> st)
  case Nil
  then show ?case by simp
next
  case (Cons d ds)
  let ?\<sigma> = "\<sigma>(''i'' \<mapsto> PInt (int n), ''doc'' \<mapsto> PDocument d)"
  have inv: "frame ?\<sigma> ld c0 c1" "?\<sigma> ''i'' = Some (PInt (int n))" "agrees ?\<sigma> st"
    using Cons.prems by (simp_all add: frame_def agrees_def holds_other)
  from split_sentences_for [OF inv, of E "sentences d"] obtain \<tau> st1 where
    f: "exec_for (notebook_callables E) E [''s''] split_sentence_body
          (map PSentence (sentences d)) ?\<sigma> = Normal \<tau>"
    and l: "sentences_loop [c0, c1] ld n (sentences d) st = Inr st1"
    and inv1: "frame \<tau> ld c0 c1" "agrees \<tau> st1" by blast
  have b: "exec_block (notebook_callables E) E split_document_body ?\<sigma> = Normal \<tau>"
    using f by (simp add: split_document_body_def and_then_def)
  from Cons.IH [OF inv1, of "Suc n"] obtain \<sigma>' st' where
    "exec_for (notebook_callables E) E [''i'', ''doc''] split_document_body
       (map (\<lambda>(i, v). PTuple [PInt (int i), v]) (enumerate (Suc n) (map PDocument ds))) \<tau>
     = Normal \<sigma>'"
    "docs_loop [c0, c1] ld (enumerate (Suc n) ds) st1 = Inr st'"
    "frame \<sigma>' ld c0 c1" "agrees \<sigma>' st'" by blast
  then show ?case using b l by simp
qed

lemma split_cell_runs:
  "\<exists>\<sigma>' st. exec_block (notebook_callables E) E split_cell [''docs'' \<mapsto> PList (map PDocument docs)]
             = Normal \<sigma>'
          \<and> split_sentences E docs = Inr st \<and> agrees \<sigma>' st"
proof -
  obtain c0 c1 where sp: "splits E = [c0, c1]" using splits_two by blast
  let ?\<sigma> = "[''docs'' \<mapsto> PList (map PDocument docs), ''ld'' \<mapsto> PInt (int (length docs)),
      ''train_sents'' \<mapsto> PSet [], ''dev_sents'' \<mapsto> PSet [], ''test_sents'' \<mapsto> PSet [],
      ''splits'' \<mapsto> PTuple [PFloat c0, PFloat c1]]"
  let ?st = "\<lparr>train_sents = {}, dev_sents = {}, test_sents = {}\<rparr>"
  have inv: "frame ?\<sigma> (length docs) c0 c1" "agrees ?\<sigma> ?st"
    by (simp_all add: frame_def agrees_def holds_def)
  from split_documents_for [OF inv, of E 0 docs] obtain \<sigma>' st' where
    f: "exec_for (notebook_callables E) E [''i'', ''doc''] split_document_body
         (map (\<lambda>(i, v). PTuple [PInt (int i), v]) (enumerate 0 (map PDocument docs))) ?\<sigma>
        = Normal \<sigma>'"
    and l: "docs_loop [c0, c1] (length docs) (enumerate 0 docs) ?st = Inr st'"
    and a: "agrees \<sigma>' st'" by blast
  have F: "notebook_callables E ''len'' = Some builtin_len"
    "notebook_callables E ''set'' = Some builtin_set"
    "notebook_callables E ''enumerate'' = Some builtin_enumerate"
    by (simp_all add: notebook_callables_def builtins_def)
  have t: "eval (notebook_callables E) E \<tau> splits_value = Inr (PTuple [PFloat c0, PFloat c1])"
    for \<tau>
    using sp by (auto simp: splits_def splits_value_def split: if_splits)
  have "exec_block (notebook_callables E) E split_cell [''docs'' \<mapsto> PList (map PDocument docs)]
      = Normal \<sigma>'"
    using f by (simp add: split_cell_def and_then_def F t)
  moreover have "split_sentences E docs = Inr st'"
    using l by (simp add: split_sentences_def sp)
  ultimately show ?thesis using a by blast
qed

text \<open>
  The failures of the interpreter are within reach of programs close to the authored
  ones: a subscript beyond the tuple, a counter that was not initialised, a
  \<^verbatim>\<open>raise\<close>, a loop over a number, and the splitting cell where
  \<^verbatim>\<open>number_of_people\<close> is not defined.
\<close>

lemma subscript_out_of_range_raises:
  "exec_block F E
     [Assign ''splits'' (Const (PTuple [PFloat (8 / 10), PFloat (9 / 10)])),
      Assign ''x'' (Subscript (Name ''splits'') (Const (PInt 2)))] \<sigma>
   = Raises IndexError (\<sigma>(''splits'' \<mapsto> PTuple [PFloat (8 / 10), PFloat (9 / 10)]))"
  by (simp add: and_then_def index_def subscript_def)

lemma count_without_initialisation_raises:
  "call_function builtins E [''sentence'']
     (Assign ''active_sequence'' (Const (PBool False)) # tl (tl number_of_people_body))
     [PSentence \<lparr>sentence_id = k, ner_tags = [''PERSON'']\<rparr>]
   = Inl NameError"
  by (simp add: call_function_def number_of_people_body_def number_of_people_for_body_def
      and_then_def)

lemma raise_statement_raises:
  "exec_block F E (Raise ''ValueError'' # ss) \<sigma> = Raises (Raised ''ValueError'') \<sigma>
   \<and> error_branches (Raise ''ValueError'') = 1"
  by simp

lemma loop_over_a_number_fails:
  "exec F E (For [''tag''] (Const (PInt 3)) body) \<sigma> = Raises Unsupported \<sigma>"
  by simp


lemma split_cell_needs_number_of_people:
  "\<exists>\<sigma>. exec_block builtins E split_cell
          [''docs'' \<mapsto> PList [PDocument \<lparr>name = n, sentences = [s]\<rparr>]]
        = Raises NameError \<sigma>"
  by (simp add: split_cell_def split_document_body_def split_sentence_body_def splits_value_def
      builtins_def and_then_def enumerate_eq_zip)

text \<open>
  C4. The code authored in the notebook has no failure handling and is total: the bodies
  of \<^verbatim>\<open>number_of_people\<close> and of the splitting cell contain no \<^verbatim>\<open>raise\<close>, no
  \<^verbatim>\<open>assert\<close> and no \<^verbatim>\<open>try\<close>; for every sentence, whatever its list of tag strings,
  the call of \<^verbatim>\<open>number_of_people\<close> ends by returning an integer, the one the function
  \<open>number_of_people\<close> gives; and for every environment and every list of documents the
  splitting cell runs to its end without an exception, leaving in its three set variables
  the three sets of the function \<open>split_sentences\<close>, which returns no error either.
\<close>

theorem authored_code_total:
  "sum_list (map error_branches (number_of_people_body @ split_cell)) = 0
   \<and> call_function builtins E [''sentence''] number_of_people_body [PSentence s]
       = Inr (PInt (number_of_people s))
   \<and> (\<exists>\<sigma> st. exec_block (notebook_callables E) E split_cell
                 [''docs'' \<mapsto> PList (map PDocument docs)] = Normal \<sigma>
            \<and> split_sentences E docs = Inr st \<and> agrees \<sigma> st)"
  using no_error_branches number_of_people_call split_cell_runs by blast

theorem authored_code_total_witness:
  "call_function builtins example_environ [''sentence''] number_of_people_body
       [PSentence (example_sentence 3)] = Inr (PInt 5)
   \<and> (\<exists>\<sigma>. exec_block (notebook_callables example_environ) example_environ split_cell
              [''docs'' \<mapsto> PList (map PDocument example_docs)] = Normal \<sigma>
          \<and> agrees \<sigma> example_result)"
proof -
  have five: "number_of_people (example_sentence 3) = 5"
    by (simp add: example_sentence_def number_of_people_def)
  from authored_code_total [of example_environ "example_sentence 3" example_docs]
  show ?thesis unfolding five example_run by auto
qed

end
